theory Spec2Isabelle
  imports
    Complex_Main
    "HOL-Library.Char_ord"
    "HOL-Library.List_Lexorder"
    "HOL-Library.Multiset"
    "HOL-Library.Log_Nat"
begin

section \<open>The string search tree\<close>

text \<open>
  \<^verbatim>\<open>minispell.cpp\<close> includes \<^verbatim>\<open>treestringset.hpp\<close> and drives a
  \<^verbatim>\<open>TreeStringSet\<close> through \<^verbatim>\<open>insert\<close>, \<^verbatim>\<open>exists\<close>, \<^verbatim>\<open>size\<close>,
  \<^verbatim>\<open>begin\<close> and \<^verbatim>\<open>showStatistics\<close>. The header is not among the sources, so the
  tree is modelled from the specification (sections 3 and 4.1). Strings are compared
  as \<^verbatim>\<open>std::string\<close> compares them: lexicographically, byte by byte, a proper prefix
  being smaller; this is the order of \<^typ>\<open>char list\<close> given by \<open>Char_ord\<close> and
  \<open>List_Lexorder\<close>.
\<close>

text \<open>Modelled from the spec: the Node of \<^verbatim>\<open>treestringset.hpp\<close>, one key and two
  owned-or-absent children; \<open>Absent\<close> is the absent child slot.\<close>

datatype node = Absent | Node node string node

text \<open>Modelled from the spec: the TreeStringSet of \<^verbatim>\<open>treestringset.hpp\<close>, the root
  (if any) and the count of keys.\<close>

record TreeStringSet =
  root :: node
  count :: nat

text \<open>Modelled from the spec: the default constructor of TreeStringSet (the tree is
  created empty).\<close>

definition emptyTree :: TreeStringSet where
  "emptyTree = \<lparr>root = Absent, count = 0\<rparr>"

text \<open>Modelled from the spec: the descent of \<^verbatim>\<open>TreeStringSet::insert\<close>. The result
  is the subtree after the insertion and whether a new Node was attached.\<close>

fun insertNode :: "string \<Rightarrow> node \<Rightarrow> node \<times> bool" where
  "insertNode w Absent = (Node Absent w Absent, True)"
| "insertNode w (Node l k r) =
     (if w < k then (case insertNode w l of (l', added) \<Rightarrow> (Node l' k r, added))
      else if k < w then (case insertNode w r of (r', added) \<Rightarrow> (Node l k r', added))
      else (Node l k r, False))"

text \<open>Modelled from the spec: \<^verbatim>\<open>TreeStringSet::insert\<close>; the count is incremented
  exactly when a Node was attached.\<close>

definition insert_tss :: "TreeStringSet \<Rightarrow> string \<Rightarrow> TreeStringSet" where
  "insert_tss dict w =
     (case insertNode w (root dict) of
        (n, added) \<Rightarrow> \<lparr>root = n, count = (if added then count dict + 1 else count dict)\<rparr>)"

text \<open>Modelled from the spec: the descent of \<^verbatim>\<open>TreeStringSet::exists\<close>.\<close>

fun existsNode :: "string \<Rightarrow> node \<Rightarrow> bool" where
  "existsNode w Absent = False"
| "existsNode w (Node l k r) =
     (if w < k then existsNode w l else if k < w then existsNode w r else True)"

text \<open>Modelled from the spec: \<^verbatim>\<open>TreeStringSet::exists\<close>.\<close>

definition exists_tss :: "TreeStringSet \<Rightarrow> string \<Rightarrow> bool" where
  "exists_tss dict w = existsNode w (root dict)"

text \<open>Modelled from the spec: \<^verbatim>\<open>TreeStringSet::size\<close>, which returns the count.\<close>

definition size_tss :: "TreeStringSet \<Rightarrow> nat" where
  "size_tss dict = count dict"

text \<open>Modelled from the spec: the recursive height, the number of nodes on the longest
  path from the root to a leaf.\<close>

fun heightNode :: "node \<Rightarrow> nat" where
  "heightNode Absent = 0"
| "heightNode (Node l k r) = 1 + max (heightNode l) (heightNode r)"

text \<open>Modelled from the spec: \<^verbatim>\<open>TreeStringSet::height\<close>.\<close>

definition height_tss :: "TreeStringSet \<Rightarrow> nat" where
  "height_tss dict = heightNode (root dict)"

subsection \<open>Specification functions on nodes\<close>

fun sizeNode :: "node \<Rightarrow> nat" where
  "sizeNode Absent = 0"
| "sizeNode (Node l k r) = sizeNode l + 1 + sizeNode r"

fun keys :: "node \<Rightarrow> string set" where
  "keys Absent = {}"
| "keys (Node l k r) = keys l \<union> {k} \<union> keys r"

fun inorder :: "node \<Rightarrow> string list" where
  "inorder Absent = []"
| "inorder (Node l k r) = inorder l @ k # inorder r"

text \<open>The invariant of the data model: keys to the left are strictly smaller, keys to
  the right strictly greater.\<close>

fun bst :: "node \<Rightarrow> bool" where
  "bst Absent = True"
| "bst (Node l k r) = (bst l \<and> bst r \<and> (\<forall>x \<in> keys l. x < k) \<and> (\<forall>x \<in> keys r. k < x))"

definition wf_tss :: "TreeStringSet \<Rightarrow> bool" where
  "wf_tss dict = (bst (root dict) \<and> count dict = sizeNode (root dict))"

section \<open>Ordered iteration\<close>

text \<open>Modelled from the spec: the signal of section 7 for a position outside the
  sequence.\<close>

datatype iter_error = PositionOutOfRange

text \<open>Modelled from the spec: the iterator of \<^verbatim>\<open>treestringset.hpp\<close>, an explicit
  traversal stack. An entry is a node whose key and right subtree are still to be
  visited; the top of the stack is the head of the list, and the empty stack is the end
  of the sequence.\<close>

type_synonym const_iterator = "(string \<times> node) list"

text \<open>Modelled from the spec: the descent to the leftmost node, which pushes the nodes on
  the way.\<close>

fun pushLeft :: "node \<Rightarrow> const_iterator \<Rightarrow> const_iterator" where
  "pushLeft Absent st = st"
| "pushLeft (Node l k r) st = pushLeft l ((k, r) # st)"

text \<open>Modelled from the spec: \<^verbatim>\<open>TreeStringSet::begin\<close> and \<^verbatim>\<open>TreeStringSet::end\<close>.\<close>

definition begin_tss :: "TreeStringSet \<Rightarrow> const_iterator" where
  "begin_tss dict = pushLeft (root dict) []"

definition end_tss :: "TreeStringSet \<Rightarrow> const_iterator" where
  "end_tss dict = []"

text \<open>Modelled from the spec: \<^verbatim>\<open>operator*\<close> and \<^verbatim>\<open>operator++\<close> of the iterator. At the end of
  the sequence both give the signal instead of a value.\<close>

fun deref :: "const_iterator \<Rightarrow> iter_error + string" where
  "deref [] = Inl PositionOutOfRange"
| "deref ((k, r) # st) = Inr k"

fun increment :: "const_iterator \<Rightarrow> iter_error + const_iterator" where
  "increment [] = Inl PositionOutOfRange"
| "increment ((k, r) # st) = Inr (pushLeft r st)"

text \<open>\<^verbatim>\<open>std::advance(iter, n)\<close> on this iterator: n increments, stopped by the first
  signal.\<close>

fun advance :: "const_iterator \<Rightarrow> nat \<Rightarrow> iter_error + const_iterator" where
  "advance it 0 = Inr it"
| "advance it (Suc n) = (case increment it of Inl e \<Rightarrow> Inl e | Inr it' \<Rightarrow> advance it' n)"

text \<open>The number of keys an iterator has still to visit.\<close>

fun stackWeight :: "const_iterator \<Rightarrow> nat" where
  "stackWeight [] = 0"
| "stackWeight ((k, r) # st) = 1 + sizeNode r + stackWeight st"

text \<open>Modelled from the spec: ordered iteration from an iterator to the end, the keys in
  the order they are yielded.\<close>

function toList :: "const_iterator \<Rightarrow> string list" where
  "toList [] = []"
| "toList ((k, r) # st) = k # toList (pushLeft r st)"
  by pat_completeness auto
termination
proof (relation "measure stackWeight")
  show "wf (measure stackWeight)" by simp
next
  fix k :: string and r :: node and st :: const_iterator
  have w: "stackWeight (pushLeft t s) = stackWeight s + sizeNode t" for t s
    by (induction t arbitrary: s) simp_all
  show "(pushLeft r st, (k, r) # st) \<in> measure stackWeight"
    by (simp add: w)
qed

text \<open>The element at ordinal position k: begin, skip k positions, dereference.\<close>

definition skipTo :: "TreeStringSet \<Rightarrow> nat \<Rightarrow> iter_error + string" where
  "skipTo dict k =
     (case advance (begin_tss dict) k of Inl e \<Rightarrow> Inl e | Inr it \<Rightarrow> deref it)"

text \<open>The median lookup of \<^verbatim>\<open>main\<close>: \<^verbatim>\<open>auto iter = dict.begin();
  std::advance(iter, dict.size() / 2); *iter\<close>.\<close>

definition medianWord :: "TreeStringSet \<Rightarrow> iter_error + string" where
  "medianWord dict = skipTo dict (size_tss dict div 2)"

section \<open>The insertion strategies of minispell.cpp\<close>

text \<open>\<^verbatim>\<open>insertAsRead\<close>: the range-for loop inserts the words in the order of the
  vector, then the vector is cleared. The result is the tree and the vector.\<close>

definition insertAsRead :: "TreeStringSet \<Rightarrow> string list \<Rightarrow> TreeStringSet \<times> string list" where
  "insertAsRead dict words = (foldl insert_tss dict words, [])"

text \<open>\<^verbatim>\<open>insertShuffled\<close>: \<^verbatim>\<open>std::shuffle\<close> with a generator seeded from
  \<^verbatim>\<open>std::random_device\<close> reorders the vector; the reordering is the parameter
  \<open>shuffle\<close>.\<close>

definition insertShuffled ::
  "(string list \<Rightarrow> string list) \<Rightarrow> TreeStringSet \<Rightarrow> string list \<Rightarrow> TreeStringSet \<times> string list" where
  "insertShuffled shuffle dict words = insertAsRead dict (shuffle words)"

text \<open>\<^verbatim>\<open>insertBalancedHelper\<close>. The indices are \<^verbatim>\<open>size_t\<close>; \<open>pastEnd - start\<close> is
  taken only when \<open>start < pastEnd\<close> and \<open>mid\<close> lies between them, so nothing wraps
  and \<^typ>\<open>nat\<close> is exact. \<^verbatim>\<open>words[mid]\<close> outside the vector is undefined in C++:
  the model returns \<open>None\<close> there.\<close>

function insertBalancedHelper ::
  "TreeStringSet \<Rightarrow> string list \<Rightarrow> nat \<Rightarrow> nat \<Rightarrow> TreeStringSet option" where
  "insertBalancedHelper dict words start pastEnd =
     (if start \<ge> pastEnd then Some dict
      else
        let size = pastEnd - start;
            mid = start + size div 2
        in if mid < length words then
             (case insertBalancedHelper (insert_tss dict (words ! mid)) words start mid of
                None \<Rightarrow> None
              | Some dict' \<Rightarrow> insertBalancedHelper dict' words (mid + 1) pastEnd)
           else None)"
  by pat_completeness auto
termination
  by (relation "measure (\<lambda>(dict, words, start, pastEnd). pastEnd - start)") auto

declare insertBalancedHelper.simps [simp del]

text \<open>\<^verbatim>\<open>insertBalanced\<close>: sort the vector, insert the medians, clear the vector.\<close>

definition insertBalanced :: "TreeStringSet \<Rightarrow> string list \<Rightarrow> (TreeStringSet \<times> string list) option" where
  "insertBalanced dict words =
     (let sorted_words = sort words in
      case insertBalancedHelper dict sorted_words 0 (length sorted_words) of
        None \<Rightarrow> None
      | Some dict' \<Rightarrow> Some (dict', []))"

subsection \<open>Specification functions for the insertion strategies\<close>

text \<open>The order of the balanced strategy as the specification words it: the median of
  the range first, then the range to its left, then the range to its right.\<close>

function medianFirstOrder :: "string list \<Rightarrow> string list" where
  "medianFirstOrder xs =
     (if xs = [] then []
      else let m = length xs div 2
           in xs ! m # medianFirstOrder (take m xs) @ medianFirstOrder (drop (m + 1) xs))"
  by pat_completeness auto
termination
  by (relation "measure length") auto

declare medianFirstOrder.simps [simp del]

text \<open>The fully degenerate tree over a list of keys: every left child is absent.\<close>

fun chain :: "string list \<Rightarrow> node" where
  "chain [] = Absent"
| "chain (x # xs) = Node Absent x (chain xs)"

text \<open>The words of a list inserted one after the other, on nodes.\<close>

fun insertNodes :: "node \<Rightarrow> string list \<Rightarrow> node" where
  "insertNodes t [] = t"
| "insertNodes t (w # ws) = insertNodes (fst (insertNode w t)) ws"

text \<open>The tree over a sorted range with the median at the root.\<close>

function medianTree :: "string list \<Rightarrow> node" where
  "medianTree xs =
     (if xs = [] then Absent
      else let m = length xs div 2
           in Node (medianTree (take m xs)) (xs ! m) (medianTree (drop (m + 1) xs)))"
  by pat_completeness auto
termination
  by (relation "measure length") auto

declare medianTree.simps [simp del]

section \<open>Reading words and the driver\<close>

text \<open>The files the program can name. A file that cannot be opened gives, on the left, the
  message of the error code of the failure the stream throws
  (\<^verbatim>\<open>e.code().message()\<close>, which the implementation chooses); a file that opens
  gives its content.\<close>

type_synonym filesystem = "string \<Rightarrow> string + string"

text \<open>Whitespace of the C locale, which ends a word for \<^verbatim>\<open>in >> word\<close> and is skipped
  before one and before the number of \<^verbatim>\<open>std::stoul\<close>.\<close>

definition isspace :: "char \<Rightarrow> bool" where
  "isspace c = (c \<in> {CHR '' '', CHR 0x09, CHR 0x0A, CHR 0x0B, CHR 0x0C, CHR 0x0D})"

text \<open>The exceptions that leave a function: the \<^verbatim>\<open>std::system_error\<close> that
  \<^verbatim>\<open>readWords\<close> rethrows, with its message; the \<^verbatim>\<open>std::out_of_range\<close> of
  \<^verbatim>\<open>std::stoul\<close>; the signal of the iterator.\<close>

datatype exn = SystemError string | StoulOutOfRange | IteratorSignal iter_error

text \<open>The loop of \<^verbatim>\<open>readWords\<close>. \<^verbatim>\<open>in >> word\<close> skips whitespace and extracts up to the
  next whitespace or the end of the file. The stream is no longer good when nothing was
  extracted (failbit and eofbit) and also when the extraction ran into the end of the file
  (eofbit): in both cases the loop breaks before \<^verbatim>\<open>push_back\<close>. The counter is a
  \<^verbatim>\<open>size_t\<close> below \<open>maxwords\<close>, so it never wraps.\<close>

function readLoop :: "nat \<Rightarrow> nat \<Rightarrow> string \<Rightarrow> string list \<Rightarrow> string list" where
  "readLoop i maxwords input words =
     (if i < maxwords then
        let input1 = dropWhile isspace input in
        if input1 = [] then words
        else
          let word = takeWhile (\<lambda>c. \<not> isspace c) input1;
              input2 = dropWhile (\<lambda>c. \<not> isspace c) input1
          in if input2 = [] then words
             else readLoop (i + 1) maxwords input2 (words @ [word])
      else words)"
  by pat_completeness auto
termination
  by (relation "measure (\<lambda>(i, maxwords, input, words). maxwords - i)") auto

declare readLoop.simps [simp del]

text \<open>\<^verbatim>\<open>readWords\<close>: the text written to \<^verbatim>\<open>std::cerr\<close>, and the exception or the
  vector after the call. A file that cannot be opened makes \<^verbatim>\<open>in.open\<close> throw, and the
  handler rethrows with the file name in the message.\<close>

definition readWords ::
  "filesystem \<Rightarrow> string list \<Rightarrow> string \<Rightarrow> nat \<Rightarrow> string \<times> (exn + string list)" where
  "readWords fs words filename maxwords =
     (case fs filename of
        Inl message \<Rightarrow>
          (''Reading words from '' @ filename @ ''...'',
           Inl (SystemError (''Error reading '' @ [CHR 0x27] @ filename @ [CHR 0x27] @ '' ('' @ message @ '')'')))
      | Inr content \<Rightarrow>
          (''Reading words from '' @ filename @ ''...'' @ '' done!'' @ [CHR 0x0A],
           Inr (readLoop 0 maxwords content words)))"

text \<open>The whitespace-delimited words of a text, all of them.\<close>

function tokens :: "string \<Rightarrow> string list" where
  "tokens s =
     (let s1 = dropWhile isspace s in
      if s1 = [] then []
      else takeWhile (\<lambda>c. \<not> isspace c) s1 # tokens (dropWhile (\<lambda>c. \<not> isspace c) s1))"
  by pat_completeness auto
termination
proof (relation "measure length")
  show "wf (measure length)" by simp
next
  fix s s1 :: string
  assume s1: "s1 = dropWhile isspace s" and ne: "s1 \<noteq> []"
  then have "\<not> isspace (hd s1)"
    using hd_dropWhile [of isspace s] by simp
  with ne have "length (dropWhile (\<lambda>c. \<not> isspace c) s1) < length s1"
    by (cases s1) (simp_all add: le_imp_less_Suc length_dropWhile_le)
  also have "length s1 \<le> length s"
    by (simp add: s1 length_dropWhile_le)
  finally show "(dropWhile (\<lambda>c. \<not> isspace c) s1, s) \<in> measure length"
    by simp
qed

declare tokens.simps [simp del]


text \<open>\<^verbatim>\<open>std::stoul(str)\<close> of the C++ standard library, which converts as \<^verbatim>\<open>strtoul\<close> does
  in base 10: leading whitespace, an optional sign, then the longest run of digits; what
  follows the digits is ignored. No digit: \<^verbatim>\<open>std::invalid_argument\<close>. A value above
  \<^verbatim>\<open>ULONG_MAX\<close>: \<^verbatim>\<open>std::out_of_range\<close>. A minus sign negates in the unsigned type.
  \<^verbatim>\<open>unsigned long\<close> and \<^verbatim>\<open>size_t\<close> have 64 bits here.\<close>

datatype stoul_error = InvalidArgument | OutOfRange

definition isdigit :: "char \<Rightarrow> bool" where
  "isdigit c = (CHR ''0'' \<le> c \<and> c \<le> CHR ''9'')"

definition digitValue :: "char \<Rightarrow> nat" where
  "digitValue c = of_char c - of_char CHR ''0''"

definition ULONG_MAX :: nat where
  "ULONG_MAX = 2 ^ 64 - 1"

definition stoul :: "string \<Rightarrow> stoul_error + nat" where
  "stoul str =
     (let s1 = dropWhile isspace str;
          negative = (s1 \<noteq> [] \<and> hd s1 = CHR ''-'');
          s2 = (if s1 \<noteq> [] \<and> (hd s1 = CHR ''-'' \<or> hd s1 = CHR ''+'') then tl s1 else s1);
          digits = takeWhile isdigit s2
      in if digits = [] then Inl InvalidArgument
         else
           let v = foldl (\<lambda>a c. 10 * a + digitValue c) 0 digits
           in if ULONG_MAX < v then Inl OutOfRange
              else Inr (if negative then (2 ^ 64 - v) mod 2 ^ 64 else v))"

text \<open>The local state of \<^verbatim>\<open>main\<close> that the options set.\<close>

datatype insertion_order = AS_READ | SHUFFLED | BALANCED

record settings =
  insertionOrder :: insertion_order
  dictFile :: string
  fileToCheck :: string
  maxDictWords :: nat
  maxCheckWords :: nat

text \<open>How the program ends: \<^verbatim>\<open>main\<close> returns a status, or an exception that nothing
  catches leaves \<^verbatim>\<open>main\<close>, or the behaviour is undefined (a read outside a vector, a read
  of a destroyed string that the program does not survive).\<close>

datatype outcome = Return int | Uncaught exn | Undefined


text \<open>In the option loop \<open>option\<close> is a reference to \<^verbatim>\<open>args.front()\<close>, and the branch of
  \<^verbatim>\<open>-n\<close> and \<^verbatim>\<open>-m\<close> reads it after \<^verbatim>\<open>args.pop_front()\<close> has destroyed that element:
  when no argument follows (for the message), when \<^verbatim>\<open>std::stoul\<close> has rejected the
  argument (for the message), and when it has accepted it (to choose the cap). C++ leaves
  such a read undefined. What the program finds there is a parameter of the run,
  \<open>destroyed\<close>: for each of the three reads and each option string, the text read, or
  \<open>None\<close> when the program does not survive the read.\<close>

datatype read_site = MissingNumber | RejectedNumber | AcceptedNumber

type_synonym destroyed_read = "read_site \<Rightarrow> string \<Rightarrow> string option"

definition DICT_FILE :: string where
  "DICT_FILE = ''/home/student/data/smalldict.words''"

definition CHECK_FILE :: string where
  "CHECK_FILE = ''/home/student/data/ispell.words''"

definition defaults :: settings where
  "defaults = \<lparr>insertionOrder = AS_READ, dictFile = DICT_FILE, fileToCheck = CHECK_FILE,
     maxDictWords = 2 ^ 64 - 1, maxCheckWords = 2 ^ 64 - 1\<rparr>"

text \<open>\<^verbatim>\<open>usage\<close>: the text it writes to \<^verbatim>\<open>std::cerr\<close>.\<close>

definition usage :: "string \<Rightarrow> string" where
  "usage progname =
     ''Usage: '' @ progname @ '' [options] [file-to-check ...]\<newline>''
     @ ''Options:\<newline>''
     @ ''  -h, --help             Print this message and exit.\<newline>''
     @ ''  -f, --file-order       Insert words in the order they appear (default).\<newline>''
     @ ''  -s, --shuffled-order   Insert words in a random order.\<newline>''
     @ ''  -b, --balanced-order   Insert words in a balanced order\<newline>''
     @ ''  -n, --num-dict-words   Number of words to read from the dictionary.\<newline>''
     @ ''  -m, --num-check-words  Number of words to check for spelling.\<newline>''
     @ ''  -d, --dict-file        Use a different dictionary file.\<newline>''
     @ ''\<newline>Default dictionary file: '' @ DICT_FILE @ ''\<newline>''
     @ ''Default file to check:   '' @ CHECK_FILE @ ''\<newline>''"

text \<open>The option loop of \<^verbatim>\<open>main\<close>, over the arguments after the program name. It
  ends the program (left: the text on \<^verbatim>\<open>std::cerr\<close> and the outcome) or leaves the
  settings and the arguments that remain (right). An empty argument does not start with
  a dash: \<^verbatim>\<open>args.front()[0]\<close> is then the terminating zero. The branch of \<^verbatim>\<open>-d\<close> does not
  read \<open>option\<close> after the pop; the branch of \<^verbatim>\<open>-n\<close> and \<^verbatim>\<open>-m\<close> does, and takes what
  it reads from \<open>destroyed\<close>.\<close>

fun processOptions ::
  "destroyed_read \<Rightarrow> string \<Rightarrow> settings \<Rightarrow> string list
     \<Rightarrow> (string \<times> outcome) + (settings \<times> string list)" where
  "processOptions destroyed progname opts [] = Inr (opts, [])"
| "processOptions destroyed progname opts (option # args) =
     (if option = [] \<or> hd option \<noteq> CHR ''-'' then Inr (opts, option # args)
      else if option = ''-f'' \<or> option = ''--file-order'' then
        processOptions destroyed progname (opts\<lparr>insertionOrder := AS_READ\<rparr>) args
      else if option = ''-s'' \<or> option = ''--shuffled-order'' then
        processOptions destroyed progname (opts\<lparr>insertionOrder := SHUFFLED\<rparr>) args
      else if option = ''-b'' \<or> option = ''--balanced-order'' then
        processOptions destroyed progname (opts\<lparr>insertionOrder := BALANCED\<rparr>) args
      else if option = ''-d'' \<or> option = ''--dict-file'' then
        (case args of
           [] \<Rightarrow> Inl (''-d expects a filename\<newline>'', Return 1)
         | file # args' \<Rightarrow> processOptions destroyed progname (opts\<lparr>dictFile := file\<rparr>) args')
      else if option = ''-n'' \<or> option = ''--num-dict-words''
              \<or> option = ''-m'' \<or> option = ''--num-check-words'' then
        (case args of
           [] \<Rightarrow>
             (case destroyed MissingNumber option of
                None \<Rightarrow> Inl ([], Undefined)
              | Some seen \<Rightarrow> Inl (seen @ '' expects a number\<newline>'', Return 1))
         | arg # args' \<Rightarrow>
             (case stoul arg of
                Inl InvalidArgument \<Rightarrow>
                  (case destroyed RejectedNumber option of
                     None \<Rightarrow> Inl ([], Undefined)
                   | Some seen \<Rightarrow> Inl (seen @ '' expects a number\<newline>'', Return 1))
              | Inl OutOfRange \<Rightarrow> Inl ([], Uncaught StoulOutOfRange)
              | Inr num \<Rightarrow>
                  (case destroyed AcceptedNumber option of
                     None \<Rightarrow> Inl ([], Undefined)
                   | Some seen \<Rightarrow>
                       if seen = ''-n'' \<or> seen = ''--num-dict-words'' then
                         processOptions destroyed progname (opts\<lparr>maxDictWords := num\<rparr>) args'
                       else
                         processOptions destroyed progname (opts\<lparr>maxCheckWords := num\<rparr>) args')))
      else if option = ''-h'' \<or> option = ''--help'' then
        Inl (usage progname, Return 0)
      else
        Inl (''Unknown option: '' @ option @ ''\<newline>'' @ usage progname, Return 1))"






text \<open>A concrete run for the examples, as an implementation with the small-string
  layout behaves: an option string of at most 15 characters lies inside the list element
  and still reads as before; a longer one lies in a heap buffer that has been freed, and
  reads as other bytes (asterisks stand for them).\<close>

definition exampleDestroyed :: destroyed_read where
  "exampleDestroyed site option =
     (if length option \<le> 15 then Some option else Some (replicate (length option) (CHR 0x2A)))"


definition fileWithoutNewline :: filesystem where
  "fileWithoutNewline name = (if name = ''words.txt'' then Inr ''a b'' else Inl ''iostream error'')"

text \<open>The words of a text that are followed by a whitespace character: all the words, but
  for the last one when the text ends inside it.\<close>

definition delimited :: "string \<Rightarrow> string list" where
  "delimited s = (if s \<noteq> [] \<and> \<not> isspace (last s) then butlast (tokens s) else tokens s)"

section \<open>Properties of insertion and lookup\<close>

lemma keys_insertNode: "keys (fst (insertNode w t)) = insert w (keys t)"
proof (induction t)
  case Absent
  show ?case by simp
next
  case (Node l k r)
  consider (lt) "w < k" | (gt) "k < w" | (eq) "w = k"
    using less_linear by blast
  then show ?case
  proof cases
    case lt
    with Node.IH(1) show ?thesis by (simp add: case_prod_unfold insert_commute)
  next
    case gt
    then have "\<not> w < k" by simp
    with gt Node.IH(2) show ?thesis by (simp add: case_prod_unfold)
  next
    case eq
    then show ?thesis by simp
  qed
qed

lemma bst_insertNode: "bst t \<Longrightarrow> bst (fst (insertNode w t))"
proof (induction t)
  case Absent
  show ?case by simp
next
  case (Node l k r)
  have kl: "keys (fst (insertNode w l)) = insert w (keys l)"
    and kr: "keys (fst (insertNode w r)) = insert w (keys r)"
    by (rule keys_insertNode)+
  from Node kl kr show ?case
    by (auto split: prod.splits)
qed

lemma added_insertNode: "bst t \<Longrightarrow> snd (insertNode w t) = (w \<notin> keys t)"
  by (induction t) (auto split: prod.splits)

lemma sizeNode_insertNode:
  "sizeNode (fst (insertNode w t)) = (if snd (insertNode w t) then sizeNode t + 1 else sizeNode t)"
  by (induction t) (auto split: prod.splits)

lemma existsNode_keys: "bst t \<Longrightarrow> existsNode w t = (w \<in> keys t)"
  by (induction t) auto

lemma finite_keys: "finite (keys t)"
  by (induction t) auto

lemma card_keys: "bst t \<Longrightarrow> card (keys t) = sizeNode t"
proof (induction t)
  case Absent
  show ?case by simp
next
  case (Node l k r)
  then have d1: "k \<notin> keys l" and d2: "k \<notin> keys r" and d3: "keys l \<inter> keys r = {}"
    by fastforce+
  have "card (keys l \<union> {k} \<union> keys r) = card (keys l \<union> {k}) + card (keys r)"
    using d2 d3 by (intro card_Un_disjoint) (auto simp: finite_keys)
  also have "card (keys l \<union> {k}) = card (keys l) + 1"
    using d1 by (simp add: finite_keys)
  finally show ?case using Node by simp
qed

lemma root_insert_tss: "root (insert_tss dict w) = fst (insertNode w (root dict))"
  by (simp add: insert_tss_def split: prod.splits)

lemma wf_emptyTree: "wf_tss emptyTree"
  by (simp add: wf_tss_def emptyTree_def)

lemma wf_insert_tss: "wf_tss dict \<Longrightarrow> wf_tss (insert_tss dict w)"
  using sizeNode_insertNode [of w "root dict"] bst_insertNode [of "root dict" w]
  by (auto simp: wf_tss_def insert_tss_def split: prod.splits)

lemma keys_insert_tss: "keys (root (insert_tss dict w)) = insert w (keys (root dict))"
  by (simp add: root_insert_tss keys_insertNode)

lemma wf_foldl_insert: "wf_tss dict \<Longrightarrow> wf_tss (foldl insert_tss dict ws)"
  by (induction ws arbitrary: dict) (simp_all add: wf_insert_tss)

lemma keys_foldl_insert: "keys (root (foldl insert_tss dict ws)) = keys (root dict) \<union> set ws"
  by (induction ws arbitrary: dict) (simp_all add: keys_insert_tss)

lemma size_wf: "wf_tss dict \<Longrightarrow> size_tss dict = card (keys (root dict))"
  by (simp add: wf_tss_def size_tss_def card_keys)

lemma exists_wf: "wf_tss dict \<Longrightarrow> exists_tss dict w = (w \<in> keys (root dict))"
  by (simp add: wf_tss_def exists_tss_def existsNode_keys)

lemma keys_emptyTree: "keys (root emptyTree) = {}"
  by (simp add: emptyTree_def)

text \<open>
  C1. Insert the strings of a list without repetitions, one after the other, into the
  empty tree: \<open>size\<close> is then the number of strings, \<open>exists\<close> is true of every
  string of the list and false of every other string.
\<close>

theorem insert_size_exists:
  assumes "distinct ws"
  shows "size_tss (foldl insert_tss emptyTree ws) = length ws
       \<and> (\<forall>w \<in> set ws. exists_tss (foldl insert_tss emptyTree ws) w)
       \<and> (\<forall>w. w \<notin> set ws \<longrightarrow> \<not> exists_tss (foldl insert_tss emptyTree ws) w)"
proof -
  let ?d = "foldl insert_tss emptyTree ws"
  have wf: "wf_tss ?d"
    by (rule wf_foldl_insert [OF wf_emptyTree])
  have ks: "keys (root ?d) = set ws"
    by (simp add: keys_foldl_insert keys_emptyTree)
  have "size_tss ?d = card (set ws)"
    using size_wf [OF wf] ks by simp
  then have "size_tss ?d = length ws"
    using assms by (simp add: distinct_card)
  moreover have "\<And>w. exists_tss ?d w = (w \<in> set ws)"
    using exists_wf [OF wf] ks by simp
  ultimately show ?thesis by simp
qed

theorem insert_size_exists_witness:
  "distinct [''b'', ''a'', ''c'']
   \<and> size_tss (foldl insert_tss emptyTree [''b'', ''a'', ''c'']) = 3
   \<and> exists_tss (foldl insert_tss emptyTree [''b'', ''a'', ''c'']) ''a''
   \<and> \<not> exists_tss (foldl insert_tss emptyTree [''b'', ''a'', ''c'']) ''z''"
proof -
  have h: "distinct [''b'', ''a'', ''c'']" by simp
  show ?thesis
    using h insert_size_exists [OF h] by simp
qed

section \<open>The insertion strategies\<close>

lemma helper_range:
  "start \<le> pastEnd \<Longrightarrow> pastEnd \<le> length words \<Longrightarrow>
   insertBalancedHelper dict words start pastEnd =
     Some (foldl insert_tss dict (medianFirstOrder (take (pastEnd - start) (drop start words))))"
proof (induction "pastEnd - start" arbitrary: dict start pastEnd rule: less_induct)
  case less
  show ?case
  proof (cases "start = pastEnd")
    case True
    then show ?thesis
      by (subst insertBalancedHelper.simps) (simp add: medianFirstOrder.simps [of "[]"])
  next
    case False
    with less.prems have lt: "start < pastEnd" by simp
    define m where "m = (pastEnd - start) div 2"
    define mid where "mid = start + m"
    let ?xs = "take (pastEnd - start) (drop start words)"
    have len: "length ?xs = pastEnd - start"
      using less.prems by simp
    have m_lt: "m < pastEnd - start"
      using lt by (simp add: m_def)
    have mid_lt: "mid < pastEnd" and mid_ge: "start \<le> mid"
      using m_lt by (simp_all add: mid_def)
    have mid_len: "mid < length words"
      using mid_lt less.prems by simp
    have nth: "?xs ! m = words ! mid"
      using m_lt less.prems by (simp add: mid_def)
    have left: "take m ?xs = take (mid - start) (drop start words)"
      using m_lt by (simp add: mid_def min_def)
    have right: "drop (m + 1) ?xs = take (pastEnd - (mid + 1)) (drop (mid + 1) words)"
      by (simp add: mid_def drop_take add.commute add.left_commute)
    have ne: "?xs \<noteq> []"
      using len lt by auto
    have order: "medianFirstOrder ?xs =
        words ! mid # medianFirstOrder (take (mid - start) (drop start words))
          @ medianFirstOrder (take (pastEnd - (mid + 1)) (drop (mid + 1) words))"
      using ne nth left right len
      by (subst medianFirstOrder.simps) (simp add: Let_def m_def)
    have IH1: "insertBalancedHelper (insert_tss dict (words ! mid)) words start mid =
        Some (foldl insert_tss (insert_tss dict (words ! mid))
               (medianFirstOrder (take (mid - start) (drop start words))))"
      using mid_lt mid_ge mid_len lt by (intro less.hyps) simp_all
    have IH2: "\<And>d. insertBalancedHelper d words (mid + 1) pastEnd =
        Some (foldl insert_tss d
               (medianFirstOrder (take (pastEnd - (mid + 1)) (drop (mid + 1) words))))"
      using mid_lt mid_ge less.prems by (intro less.hyps) simp_all
    have step: "insertBalancedHelper dict words start pastEnd =
        (case insertBalancedHelper (insert_tss dict (words ! mid)) words start mid of
           None \<Rightarrow> None
         | Some dict' \<Rightarrow> insertBalancedHelper dict' words (mid + 1) pastEnd)"
      using lt mid_len unfolding mid_def m_def
      by (subst insertBalancedHelper.simps) (simp add: Let_def)
    show ?thesis
      by (simp only: step IH1 IH2 order option.case foldl_Cons foldl_append)
  qed
qed

lemma insertBalanced_Some:
  "insertBalanced dict words = Some (foldl insert_tss dict (medianFirstOrder (sort words)), [])"
  by (simp add: insertBalanced_def Let_def helper_range)

text \<open>
  C9. Each of the three strategies returns with the vector of words empty, whatever the
  tree and the vector were; the balanced strategy never reads outside the vector, so
  it always returns.
\<close>

theorem strategies_clear_words:
  "snd (insertAsRead dict words) = []
   \<and> snd (insertShuffled shuffle dict words) = []
   \<and> (\<exists>dict'. insertBalanced dict words = Some (dict', []))"
  by (simp add: insertAsRead_def insertShuffled_def insertBalanced_Some)

lemma count_foldl_insert:
  "wf_tss dict \<Longrightarrow> size_tss (foldl insert_tss dict ws) = card (keys (root dict) \<union> set ws)"
  using size_wf [OF wf_foldl_insert, of dict ws] by (simp add: keys_foldl_insert)

text \<open>
  C10. Whatever permutation of the vector the shuffle produces, the shuffled strategy
  gives a tree with the same set of keys, the same \<open>size\<close> and the same answers of
  \<open>exists\<close> as the as-read strategy on the same vector; the starting tree is any tree
  that satisfies the invariant of the data model.
\<close>

theorem shuffled_same_keys:
  assumes "wf_tss dict" and "mset (shuffle words) = mset words"
  shows "keys (root (fst (insertShuffled shuffle dict words))) = keys (root (fst (insertAsRead dict words)))
       \<and> size_tss (fst (insertShuffled shuffle dict words)) = size_tss (fst (insertAsRead dict words))
       \<and> (\<forall>w. exists_tss (fst (insertShuffled shuffle dict words)) w
              = exists_tss (fst (insertAsRead dict words)) w)"
proof -
  have s: "set (shuffle words) = set words"
    using assms(2) by (rule mset_eq_setD)
  have w1: "wf_tss (foldl insert_tss dict (shuffle words))"
    and w2: "wf_tss (foldl insert_tss dict words)"
    using assms(1) by (rule wf_foldl_insert)+
  show ?thesis
    using s assms(1)
    by (simp add: insertShuffled_def insertAsRead_def keys_foldl_insert count_foldl_insert
        exists_wf [OF w1] exists_wf [OF w2])
qed

theorem shuffled_same_keys_witness:
  "wf_tss emptyTree \<and> mset (rev [''b'', ''a'', ''c'']) = mset [''b'', ''a'', ''c'']
   \<and> keys (root (fst (insertShuffled rev emptyTree [''b'', ''a'', ''c''])))
       = keys (root (fst (insertAsRead emptyTree [''b'', ''a'', ''c''])))
   \<and> size_tss (fst (insertShuffled rev emptyTree [''b'', ''a'', ''c''])) = 3
   \<and> size_tss (fst (insertAsRead emptyTree [''b'', ''a'', ''c''])) = 3"
proof -
  have h1: "wf_tss emptyTree"
    by (simp add: wf_tss_def emptyTree_def)
  have h2: "mset (rev [''b'', ''a'', ''c'']) = mset [''b'', ''a'', ''c'']"
    by simp
  have e: "size_tss (fst (insertAsRead emptyTree [''b'', ''a'', ''c''])) = 3"
    by (simp add: insertAsRead_def insert_tss_def emptyTree_def size_tss_def)
  show ?thesis
    using h1 h2 e shuffled_same_keys [of emptyTree rev "[''b'', ''a'', ''c'']"] by simp
qed

lemma insertNode_chain:
  "\<forall>x \<in> set xs. x < w \<Longrightarrow> insertNode w (chain xs) = (chain (xs @ [w]), True)"
  by (induction xs) (auto simp: less_not_sym)

lemma heightNode_chain: "heightNode (chain xs) = length xs"
  by (induction xs) simp_all

lemma foldl_insert_sorted:
  "sorted ws \<Longrightarrow> distinct ws \<Longrightarrow>
   foldl insert_tss emptyTree ws = \<lparr>root = chain ws, count = length ws\<rparr>"
proof (induction ws rule: rev_induct)
  case Nil
  show ?case by (simp add: emptyTree_def)
next
  case (snoc w ws)
  from snoc.prems have s: "sorted ws" and d: "distinct ws" and lt: "\<forall>x \<in> set ws. x < w"
    by (auto simp: sorted_append less_le)
  show ?case
    using snoc.IH [OF s d] insertNode_chain [OF lt]
    by (simp add: insert_tss_def)
qed

text \<open>
  C4. The as-read strategy on a sorted vector of n distinct strings, from the empty
  tree, gives the chain over the vector: height n, size n, every left child absent.
\<close>

theorem as_read_sorted_degenerate:
  assumes "sorted ws" and "distinct ws"
  shows "height_tss (fst (insertAsRead emptyTree ws)) = length ws
       \<and> size_tss (fst (insertAsRead emptyTree ws)) = length ws
       \<and> root (fst (insertAsRead emptyTree ws)) = chain ws"
  using foldl_insert_sorted [OF assms]
  by (simp add: insertAsRead_def height_tss_def size_tss_def heightNode_chain)

theorem as_read_sorted_degenerate_witness:
  "sorted [''a'', ''b'', ''c'', ''d''] \<and> distinct [''a'', ''b'', ''c'', ''d'']
   \<and> height_tss (fst (insertAsRead emptyTree [''a'', ''b'', ''c'', ''d''])) = 4
   \<and> root (fst (insertAsRead emptyTree [''a'', ''b'', ''c'', ''d'']))
       = Node Absent ''a'' (Node Absent ''b'' (Node Absent ''c'' (Node Absent ''d'' Absent)))"
proof -
  have h1: "sorted [''a'', ''b'', ''c'', ''d'']" by simp
  have h2: "distinct [''a'', ''b'', ''c'', ''d'']" by simp
  show ?thesis
    using h1 h2 as_read_sorted_degenerate [OF h1 h2] by simp
qed

section \<open>The balanced strategy\<close>

lemma root_foldl_insert: "root (foldl insert_tss dict ws) = insertNodes (root dict) ws"
  by (induction ws arbitrary: dict) (simp_all add: root_insert_tss)

lemma insertNodes_Node:
  "insertNodes (Node l k r) ys =
     Node (insertNodes l (filter (\<lambda>w. w < k) ys)) k (insertNodes r (filter (\<lambda>w. k < w) ys))"
proof (induction ys arbitrary: l r)
  case Nil
  show ?case by simp
next
  case (Cons w ys)
  consider (lt) "w < k" | (gt) "k < w" | (eq) "w = k"
    using less_linear by blast
  then show ?case
  proof cases
    case lt
    then have "\<not> k < w" by simp
    with lt Cons.IH show ?thesis by (simp add: case_prod_unfold)
  next
    case gt
    then have "\<not> w < k" by simp
    with gt Cons.IH show ?thesis by (simp add: case_prod_unfold)
  next
    case eq
    with Cons.IH show ?thesis by simp
  qed
qed

lemma insertNodes_append: "insertNodes t (xs @ ys) = insertNodes (insertNodes t xs) ys"
  by (induction xs arbitrary: t) simp_all

lemma split_at_median:
  "xs \<noteq> [] \<Longrightarrow> xs = take (length xs div 2) xs @ xs ! (length xs div 2) # drop (length xs div 2 + 1) xs"
  using id_take_nth_drop [of "length xs div 2" xs] by simp

lemma set_medianFirstOrder: "set (medianFirstOrder xs) = set xs"
proof (induction xs rule: medianFirstOrder.induct)
  case (1 xs)
  show ?case
  proof (cases "xs = []")
    case True
    then show ?thesis by (simp add: medianFirstOrder.simps [of "[]"])
  next
    case False
    let ?m = "length xs div 2"
    have l: "set (medianFirstOrder (take ?m xs)) = set (take ?m xs)"
      and r: "set (medianFirstOrder (drop (?m + 1) xs)) = set (drop (?m + 1) xs)"
      using "1.IH" False by simp_all
    have "set xs = set (take ?m xs @ xs ! ?m # drop (?m + 1) xs)"
      using split_at_median [OF False] by simp
    also have "\<dots> = set (medianFirstOrder xs)"
      using False l r by (subst medianFirstOrder.simps [of xs]) (simp add: Let_def)
    finally show ?thesis by simp
  qed
qed

lemma median_splits_sorted:
  assumes "sorted_wrt (<) xs" and "xs \<noteq> []"
  shows "sorted_wrt (<) (take (length xs div 2) xs)"
    and "sorted_wrt (<) (drop (length xs div 2 + 1) xs)"
    and "\<forall>x \<in> set (take (length xs div 2) xs). x < xs ! (length xs div 2)"
    and "\<forall>x \<in> set (drop (length xs div 2 + 1) xs). xs ! (length xs div 2) < x"
proof -
  let ?m = "length xs div 2"
  have "sorted_wrt (<) (take ?m xs @ xs ! ?m # drop (?m + 1) xs)"
    using assms split_at_median [of xs] by simp
  then show "sorted_wrt (<) (take ?m xs)" "sorted_wrt (<) (drop (?m + 1) xs)"
    "\<forall>x \<in> set (take ?m xs). x < xs ! ?m" "\<forall>x \<in> set (drop (?m + 1) xs). xs ! ?m < x"
    by (auto simp: sorted_wrt_append)
qed

lemma insertNodes_medianFirstOrder:
  "sorted_wrt (<) xs \<Longrightarrow> insertNodes Absent (medianFirstOrder xs) = medianTree xs"
proof (induction xs rule: medianTree.induct)
  case (1 xs)
  show ?case
  proof (cases "xs = []")
    case True
    then show ?thesis
      by (simp add: medianFirstOrder.simps [of "[]"] medianTree.simps [of "[]"])
  next
    case False
    let ?m = "length xs div 2"
    let ?k = "xs ! ?m"
    let ?L = "medianFirstOrder (take ?m xs)"
    let ?R = "medianFirstOrder (drop (?m + 1) xs)"
    note ms = median_splits_sorted [OF "1.prems" False]
    have l: "insertNodes Absent ?L = medianTree (take ?m xs)"
      using "1.IH"(1) False ms(1) by simp
    have r: "insertNodes Absent ?R = medianTree (drop (?m + 1) xs)"
      using "1.IH"(2) False ms(2) by simp
    have Llt: "\<forall>x \<in> set ?L. x < ?k" and Rgt: "\<forall>x \<in> set ?R. ?k < x"
      using ms(3,4) by (simp_all only: set_medianFirstOrder)
    have fl: "filter (\<lambda>w. w < ?k) (?L @ ?R) = ?L"
      using Llt Rgt by (auto simp: filter_empty_conv less_not_sym)
    have fr: "filter (\<lambda>w. ?k < w) (?L @ ?R) = ?R"
      using Llt Rgt by (auto simp: filter_empty_conv less_not_sym)
    have "insertNodes Absent (medianFirstOrder xs) = insertNodes (Node Absent ?k Absent) (?L @ ?R)"
      using False by (subst medianFirstOrder.simps [of xs]) (simp add: Let_def)
    also have "\<dots> = Node (insertNodes Absent ?L) ?k (insertNodes Absent ?R)"
      by (simp only: insertNodes_Node fl fr)
    also have "\<dots> = medianTree xs"
      using False l r by (subst medianTree.simps [of xs]) (simp add: Let_def)
    finally show ?thesis .
  qed
qed

lemma heightNode_medianTree: "heightNode (medianTree xs) = floorlog 2 (length xs)"
proof (induction xs rule: medianTree.induct)
  case (1 xs)
  show ?case
  proof (cases "xs = []")
    case True
    then show ?thesis by (simp add: medianTree.simps [of "[]"] floorlog_def)
  next
    case False
    let ?n = "length xs"
    let ?m = "?n div 2"
    have pos: "0 < ?n" using False by simp
    have l: "heightNode (medianTree (take ?m xs)) = floorlog 2 ?m"
      using "1.IH"(1) False by (simp add: min_absorb2)
    have r: "heightNode (medianTree (drop (?m + 1) xs)) = floorlog 2 (?n - (?m + 1))"
      using "1.IH"(2) False by simp
    have "?n - (?m + 1) \<le> ?m" by simp
    then have le: "floorlog 2 (?n - (?m + 1)) \<le> floorlog 2 ?m"
      by (rule floorlog_mono)
    have "heightNode (medianTree xs) = 1 + max (floorlog 2 ?m) (floorlog 2 (?n - (?m + 1)))"
      using False l r by (subst medianTree.simps [of xs]) (simp add: Let_def)
    also have "\<dots> = floorlog 2 ?m + 1"
      using le by simp
    also have "\<dots> = floorlog 2 ?n"
      using pos by (subst compute_floorlog [of 2 "length xs"]) simp
    finally show ?thesis .
  qed
qed

lemma floorlog_ceiling_log: "int (floorlog 2 n) = \<lceil>log 2 (real (n + 1))\<rceil>"
proof (cases "n = 0")
  case True
  then show ?thesis by (simp add: floorlog_def)
next
  case False
  then have pos: "0 < n" by simp
  define l where "l = floorlog 2 n"
  have lpos: "0 < l"
    using pos by (simp add: l_def floorlog_def)
  have b: "2 ^ (l - 1) \<le> n" "n < 2 ^ l"
    using floorlog_bounds [of n 2] pos by (simp_all add: l_def)
  have up: "n + 1 \<le> 2 ^ l" using b(2) by simp
  have "(2::nat) ^ l = 2 * 2 ^ (l - 1)"
    using lpos by (cases l) simp_all
  then have lo: "2 ^ l < 2 * (n + 1)" using b(1) by simp
  have "ceillog2 (n + 1) = l"
    using up lo by (rule ceillog2_eqI)
  then have c: "nat \<lceil>log 2 (real (n + 1))\<rceil> = l"
    by (simp add: ceillog2_def)
  have "0 \<le> log 2 (real (n + 1))" by simp
  then have "0 \<le> \<lceil>log 2 (real (n + 1))\<rceil>" by linarith
  with c show ?thesis
    unfolding l_def by linarith
qed

lemma root_balanced:
  assumes "distinct words"
  shows "root (foldl insert_tss emptyTree (medianFirstOrder (sort words))) = medianTree (sort words)"
proof -
  have "sorted_wrt (<) (sort words)"
    using assms by (simp add: strict_sorted_iff)
  then show ?thesis
    by (simp add: root_foldl_insert insertNodes_medianFirstOrder emptyTree_def)
qed

text \<open>
  C2. The balanced strategy on a vector of n distinct words, in whatever order, from the
  empty tree, returns a tree of height exactly the ceiling of log2 (n + 1).
\<close>

theorem balanced_height:
  assumes "distinct words"
  shows "\<exists>dict'. insertBalanced emptyTree words = Some (dict', [])
           \<and> int (height_tss dict') = \<lceil>log 2 (real (length words + 1))\<rceil>"
proof -
  let ?d = "foldl insert_tss emptyTree (medianFirstOrder (sort words))"
  have "height_tss ?d = floorlog 2 (length words)"
    by (simp add: height_tss_def root_balanced [OF assms] heightNode_medianTree)
  then have "int (height_tss ?d) = \<lceil>log 2 (real (length words + 1))\<rceil>"
    by (simp only: floorlog_ceiling_log)
  then show ?thesis
    using insertBalanced_Some [of emptyTree words] by blast
qed

theorem balanced_height_witness:
  "distinct [''e'', ''a'', ''d'', ''c'', ''b'']
   \<and> (\<exists>dict'. insertBalanced emptyTree [''e'', ''a'', ''d'', ''c'', ''b''] = Some (dict', [])
         \<and> int (height_tss dict') = \<lceil>log 2 (real (length [''e'', ''a'', ''d'', ''c'', ''b''] + 1))\<rceil>)"
proof -
  have h: "distinct [''e'', ''a'', ''d'', ''c'', ''b'']" by simp
  show ?thesis
    using h balanced_height [OF h] by blast
qed

lemma medianFirstOrder_example: "medianFirstOrder [''a'', ''b'', ''c'', ''d'', ''e''] = [''c'', ''b'', ''a'', ''e'', ''d'']"
  by code_simp

lemma insertBalanced_example: "insertBalanced emptyTree [''a'', ''b'', ''c'', ''d'', ''e''] =
       Some (\<lparr>root = Node (Node (Node Absent ''a'' Absent) ''b'' Absent) ''c''
                          (Node (Node Absent ''d'' Absent) ''e'' Absent),
              count = 5\<rparr>, [])"
  by code_simp

text \<open>
  C3. The balanced strategy inserts the words of the sorted vector in median-first order:
  the median of the range, then the range to its left, then the range to its right.
  On a, b, c, d, e that order is c, b, a, e, d, and the tree has root c, the keys a, b
  to the left, the keys d, e to the right, and height 3.
\<close>

theorem balanced_median_first:
  "insertBalanced dict words = Some (foldl insert_tss dict (medianFirstOrder (sort words)), [])
   \<and> medianFirstOrder [''a'', ''b'', ''c'', ''d'', ''e''] = [''c'', ''b'', ''a'', ''e'', ''d'']
   \<and> insertBalanced emptyTree [''a'', ''b'', ''c'', ''d'', ''e''] =
       Some (\<lparr>root = Node (Node (Node Absent ''a'' Absent) ''b'' Absent) ''c''
                          (Node (Node Absent ''d'' Absent) ''e'' Absent),
              count = 5\<rparr>, [])
   \<and> keys (Node (Node Absent ''a'' Absent) ''b'' Absent) = {''a'', ''b''}
   \<and> keys (Node (Node Absent ''d'' Absent) ''e'' Absent) = {''d'', ''e''}
   \<and> height_tss \<lparr>root = Node (Node (Node Absent ''a'' Absent) ''b'' Absent) ''c''
                              (Node (Node Absent ''d'' Absent) ''e'' Absent),
                  count = 5\<rparr> = 3"
proof -
  have k1: "keys (Node (Node Absent ''a'' Absent) ''b'' Absent) = {''a'', ''b''}"
    and k2: "keys (Node (Node Absent ''d'' Absent) ''e'' Absent) = {''d'', ''e''}"
    by auto
  have h: "height_tss \<lparr>root = Node (Node (Node Absent ''a'' Absent) ''b'' Absent) ''c''
                              (Node (Node Absent ''d'' Absent) ''e'' Absent),
                  count = 5\<rparr> = 3"
    by (simp add: height_tss_def)
  show ?thesis
    using insertBalanced_Some [of dict words] medianFirstOrder_example insertBalanced_example k1 k2 h
    by blast
qed

section \<open>Properties of ordered iteration\<close>

lemma toList_pushLeft: "toList (pushLeft t st) = inorder t @ toList st"
  by (induction t arbitrary: st) simp_all

lemma toList_begin: "toList (begin_tss dict) = inorder (root dict)"
  by (simp add: begin_tss_def toList_pushLeft)

lemma set_inorder: "set (inorder t) = keys t"
  by (induction t) auto

lemma length_inorder: "length (inorder t) = sizeNode t"
  by (induction t) simp_all

lemma sorted_inorder: "bst t \<Longrightarrow> sorted_wrt (<) (inorder t)"
proof (induction t)
  case Absent
  show ?case by simp
next
  case (Node l k r)
  then have "\<forall>x \<in> set (inorder l). \<forall>y \<in> set (k # inorder r). x < y"
    by (auto simp: set_inorder intro: less_trans)
  with Node show ?case
    by (simp add: sorted_wrt_append set_inorder)
qed

text \<open>
  C5. For the tree built by any sequence of inserts from the empty tree, ordered iteration
  from begin to the end yields the keys in strictly increasing, hence non-decreasing,
  order; it yields as many keys as \<open>size\<close> says, and they are the inserted strings.
\<close>

theorem iteration_sorted:
  "sorted_wrt (<) (toList (begin_tss (foldl insert_tss emptyTree ws)))
   \<and> sorted (toList (begin_tss (foldl insert_tss emptyTree ws)))
   \<and> length (toList (begin_tss (foldl insert_tss emptyTree ws))) = size_tss (foldl insert_tss emptyTree ws)
   \<and> set (toList (begin_tss (foldl insert_tss emptyTree ws))) = set ws"
proof -
  let ?d = "foldl insert_tss emptyTree ws"
  have wf: "wf_tss ?d"
    by (rule wf_foldl_insert [OF wf_emptyTree])
  then have s: "sorted_wrt (<) (inorder (root ?d))"
    by (simp add: wf_tss_def sorted_inorder)
  then have s': "sorted (inorder (root ?d))"
    by (simp add: strict_sorted_iff)
  have l: "length (inorder (root ?d)) = size_tss ?d"
    using wf by (simp add: wf_tss_def size_tss_def length_inorder)
  have k: "set (inorder (root ?d)) = set ws"
    by (simp add: set_inorder keys_foldl_insert keys_emptyTree)
  show ?thesis
    using s s' l k by (simp add: toList_begin)
qed

lemma advance_past_end: "length (toList it) < k \<Longrightarrow> advance it k = Inl PositionOutOfRange"
proof (induction k arbitrary: it)
  case 0
  then show ?case by simp
next
  case (Suc k)
  show ?case
  proof (cases it rule: increment.cases)
    case 1
    then show ?thesis by simp
  next
    case (2 key r st)
    with Suc.prems have "length (toList (pushLeft r st)) < k" by simp
    from Suc.IH [OF this] show ?thesis by (simp add: 2)
  qed
qed

lemma advance_in_range:
  "k \<le> length (toList it) \<Longrightarrow> \<exists>it'. advance it k = Inr it' \<and> toList it' = drop k (toList it)"
proof (induction k arbitrary: it)
  case 0
  show ?case by simp
next
  case (Suc k)
  then obtain key r st where it: "it = (key, r) # st"
    by (cases it) auto
  with Suc.prems have "k \<le> length (toList (pushLeft r st))" by simp
  from Suc.IH [OF this] show ?case by (simp add: it)
qed

lemma deref_toList: "deref it = (case toList it of [] \<Rightarrow> Inl PositionOutOfRange | k # ks \<Rightarrow> Inr k)"
  by (cases it rule: deref.cases) simp_all

lemma skipTo_wf:
  assumes "wf_tss dict"
  shows "skipTo dict k =
     (if k < size_tss dict then Inr (inorder (root dict) ! k) else Inl PositionOutOfRange)"
proof -
  have len: "length (toList (begin_tss dict)) = size_tss dict"
    using assms by (simp add: toList_begin length_inorder wf_tss_def size_tss_def)
  show ?thesis
  proof (cases "k \<le> size_tss dict")
    case False
    then show ?thesis
      using advance_past_end [of "begin_tss dict" k] len by (simp add: skipTo_def)
  next
    case True
    then obtain it' where a: "advance (begin_tss dict) k = Inr it'"
      and t: "toList it' = drop k (toList (begin_tss dict))"
      using advance_in_range [of k "begin_tss dict"] len by auto
    show ?thesis
    proof (cases "k < size_tss dict")
      case True
      then have "drop k (toList (begin_tss dict)) = toList (begin_tss dict) ! k # drop (Suc k) (toList (begin_tss dict))"
        using len by (simp add: Cons_nth_drop_Suc)
      then show ?thesis
        using True a t by (simp add: skipTo_def deref_toList toList_begin)
    next
      case False
      with \<open>k \<le> size_tss dict\<close> have "k = size_tss dict" by simp
      then have "toList it' = []" using t len by simp
      then show ?thesis
        using False a by (simp add: skipTo_def deref_toList)
    qed
  qed
qed

text \<open>
  C6. For the tree built by any sequence of inserts from the empty tree and every k that
  is at least \<open>size\<close>, skipping k positions from begin and dereferencing gives the
  signal "position out of range"; so does the median lookup of the driver on the empty
  tree.
\<close>

theorem skip_out_of_range:
  "(\<forall>k. size_tss (foldl insert_tss emptyTree ws) \<le> k \<longrightarrow>
        skipTo (foldl insert_tss emptyTree ws) k = Inl PositionOutOfRange)
   \<and> medianWord emptyTree = Inl PositionOutOfRange"
proof -
  have wf: "wf_tss (foldl insert_tss emptyTree ws)"
    by (rule wf_foldl_insert [OF wf_emptyTree])
  have "size_tss emptyTree = 0"
    by (simp add: size_tss_def emptyTree_def)
  then have "medianWord emptyTree = Inl PositionOutOfRange"
    using skipTo_wf [OF wf_emptyTree, of 0] by (simp add: medianWord_def)
  then show ?thesis
    using skipTo_wf [OF wf] by simp
qed

theorem skip_out_of_range_witness:
  "size_tss (foldl insert_tss emptyTree [''b'', ''a'', ''c'']) \<le> 3
   \<and> skipTo (foldl insert_tss emptyTree [''b'', ''a'', ''c'']) 3 = Inl PositionOutOfRange
   \<and> skipTo (foldl insert_tss emptyTree [''b'', ''a'', ''c'']) 2 = Inr ''c''"
proof -
  have s: "size_tss (foldl insert_tss emptyTree [''b'', ''a'', ''c'']) \<le> 3"
    by (simp add: insert_tss_def emptyTree_def size_tss_def)
  have e: "skipTo (foldl insert_tss emptyTree [''b'', ''a'', ''c'']) 2 = Inr ''c''"
    by code_simp
  show ?thesis
    using s e skip_out_of_range [of "[''b'', ''a'', ''c'']"] by blast
qed

section \<open>Properties of reading words\<close>

lemma tokens_Nil_iff: "tokens s = [] \<longleftrightarrow> dropWhile isspace s = []"
  by (subst tokens.simps) (simp add: Let_def)

lemma tokens_Cons:
  "dropWhile isspace s \<noteq> [] \<Longrightarrow>
   tokens s = takeWhile (\<lambda>c. \<not> isspace c) (dropWhile isspace s)
              # tokens (dropWhile (\<lambda>c. \<not> isspace c) (dropWhile isspace s))"
  by (subst tokens.simps) (simp add: Let_def)

lemma last_nonspace_tokens: "s \<noteq> [] \<Longrightarrow> \<not> isspace (last s) \<Longrightarrow> tokens s \<noteq> []"
proof -
  assume "s \<noteq> []" and "\<not> isspace (last s)"
  then have "\<exists>c \<in> set s. \<not> isspace c"
    using last_in_set by blast
  then have "dropWhile isspace s \<noteq> []"
    by (simp add: dropWhile_eq_Nil_conv)
  then show ?thesis
    by (simp add: tokens_Nil_iff del: dropWhile_eq_Nil_conv)
qed

lemma last_dropWhile: "dropWhile P s \<noteq> [] \<Longrightarrow> last s = last (dropWhile P s)"
proof -
  assume ne: "dropWhile P s \<noteq> []"
  have "last (takeWhile P s @ dropWhile P s) = last (dropWhile P s)"
    using ne by (simp only: last_append if_False)
  then show ?thesis by simp
qed

lemma delimited_step:
  assumes "dropWhile isspace s \<noteq> []"
    and "dropWhile (\<lambda>c. \<not> isspace c) (dropWhile isspace s) \<noteq> []"
  shows "delimited s = takeWhile (\<lambda>c. \<not> isspace c) (dropWhile isspace s)
                       # delimited (dropWhile (\<lambda>c. \<not> isspace c) (dropWhile isspace s))"
proof -
  define s1 where "s1 = dropWhile isspace s"
  define s2 where "s2 = dropWhile (\<lambda>c. \<not> isspace c) s1"
  have ne1: "s1 \<noteq> []" and ne2: "s2 \<noteq> []"
    using assms by (simp_all only: s1_def s2_def not_False_eq_True)
  have "last s = last s1"
    using assms(1) unfolding s1_def by (rule last_dropWhile)
  also have "\<dots> = last s2"
    using ne2 unfolding s2_def by (rule last_dropWhile)
  finally have l: "last s = last s2" .
  have ne: "s \<noteq> []"
    using assms(1) by auto
  have t: "tokens s = takeWhile (\<lambda>c. \<not> isspace c) s1 # tokens s2"
    unfolding s1_def s2_def by (rule tokens_Cons [OF assms(1)])
  have "delimited s = takeWhile (\<lambda>c. \<not> isspace c) s1 # delimited s2"
  proof (cases "isspace (last s2)")
    case True
    then show ?thesis
      using ne ne2 l by (simp add: delimited_def t)
  next
    case False
    with ne2 have "tokens s2 \<noteq> []"
      by (rule last_nonspace_tokens)
    then show ?thesis
      using False ne ne2 l by (simp add: delimited_def t)
  qed
  then show ?thesis
    by (simp only: s1_def s2_def)
qed

lemma delimited_last_word:
  assumes "dropWhile isspace s \<noteq> []"
    and "dropWhile (\<lambda>c. \<not> isspace c) (dropWhile isspace s) = []"
  shows "delimited s = []"
proof -
  define s1 where "s1 = dropWhile isspace s"
  have ne1: "s1 \<noteq> []" and e2: "dropWhile (\<lambda>c. \<not> isspace c) s1 = []"
    using assms by (simp_all only: s1_def not_False_eq_True)
  have "tokens (dropWhile (\<lambda>c. \<not> isspace c) s1) = []"
    by (subst tokens.simps) (simp only: e2 dropWhile.simps Let_def if_True simp_thms)
  then have t: "tokens s = [takeWhile (\<lambda>c. \<not> isspace c) s1]"
    using tokens_Cons [OF assms(1)] by (simp only: s1_def)
  have "last s = last s1"
    using assms(1) unfolding s1_def by (rule last_dropWhile)
  moreover have "last s1 \<in> set s1"
    using ne1 by (rule last_in_set)
  moreover have "\<forall>c \<in> set s1. \<not> isspace c"
    using e2 by (simp only: dropWhile_eq_Nil_conv)
  ultimately have "\<not> isspace (last s)"
    by simp
  moreover have "s \<noteq> []"
    using assms(1) by auto
  ultimately show ?thesis
    by (simp add: delimited_def t)
qed

lemma delimited_no_word:
  assumes "dropWhile isspace s = []"
  shows "delimited s = []"
proof -
  have "tokens s = []"
    by (subst tokens.simps) (simp only: assms Let_def if_True simp_thms)
  then show ?thesis
    by (simp add: delimited_def)
qed

lemma readLoop_delimited:
  "readLoop i maxwords input words = words @ take (maxwords - i) (delimited input)"
proof (induction i maxwords input words rule: readLoop.induct)
  case (1 i maxwords input words)
  let ?s1 = "dropWhile isspace input"
  let ?s2 = "dropWhile (\<lambda>c. \<not> isspace c) ?s1"
  show ?case
  proof (cases "i < maxwords")
    case False
    then show ?thesis
      by (subst readLoop.simps) simp
  next
    case True
    then have suc: "maxwords - i = Suc (maxwords - (i + 1))" by simp
    consider (none) "?s1 = []" | (last) "?s1 \<noteq> []" "?s2 = []" | (more) "?s1 \<noteq> []" "?s2 \<noteq> []"
      by blast
    then show ?thesis
    proof cases
      case none
      then show ?thesis
        using True by (subst readLoop.simps) (simp add: delimited_no_word Let_def del: dropWhile_eq_Nil_conv)
    next
      case last
      then show ?thesis
        using True by (subst readLoop.simps) (simp add: delimited_last_word Let_def del: dropWhile_eq_Nil_conv)
    next
      case more
      have "readLoop i maxwords input words
          = readLoop (i + 1) maxwords ?s2 (words @ [takeWhile (\<lambda>c. \<not> isspace c) ?s1])"
        using True more by (subst readLoop.simps) (simp add: Let_def del: dropWhile_eq_Nil_conv)
      also have "\<dots> = (words @ [takeWhile (\<lambda>c. \<not> isspace c) ?s1])
                        @ take (maxwords - (i + 1)) (delimited ?s2)"
        using True more by (intro "1.IH") simp_all
      also have "\<dots> = words @ take (maxwords - i) (delimited input)"
        by (simp only: suc delimited_step [OF more] take_Suc_Cons append_assoc append_Cons append_Nil)
      finally show ?thesis .
    qed
  qed
qed

lemma delimited_trailing_space: "s \<noteq> [] \<Longrightarrow> isspace (last s) \<Longrightarrow> delimited s = tokens s"
  by (simp add: delimited_def)

lemma readWords_delimited:
  "fs filename = Inr content \<Longrightarrow>
   snd (readWords fs words filename maxwords) = Inr (words @ take maxwords (delimited content))"
  by (simp add: readWords_def readLoop_delimited)

section \<open>Properties of the driver\<close>










text \<open>When the destroyed string reads as other bytes, as for the long option names in the
  example run, \<^verbatim>\<open>--num-dict-words 1\<close> sets the cap of the words to check, not the cap of
  the dictionary: the comparison with the two dictionary options fails.\<close>

lemma long_option_sets_other_cap:
  "processOptions exampleDestroyed ''minispell'' defaults [''--num-dict-words'', ''1'']
     = Inr (defaults\<lparr>maxCheckWords := 1\<rparr>, [])"
  by (simp add: stoul_def isspace_def isdigit_def digitValue_def ULONG_MAX_def exampleDestroyed_def)




text \<open>
  C8 fails on a file that does not end in whitespace. The file holds the two words a
  and b with nothing after b; with a cap of 5, and with a cap of 2, \<^verbatim>\<open>readWords\<close> appends
  a alone: reading b runs into the end of the file, the stream is no longer good, and
  the loop breaks before the word is pushed.
\<close>

theorem readWords_drops_last_word:
  "tokens ''a b'' = [''a'', ''b'']
   \<and> readWords fileWithoutNewline [] ''words.txt'' 5
       = (''Reading words from words.txt... done!\<newline>'', Inr [''a''])
   \<and> readWords fileWithoutNewline [] ''words.txt'' 2
       = (''Reading words from words.txt... done!\<newline>'', Inr [''a''])"
  by (simp add: tokens.simps readWords_def readLoop.simps isspace_def fileWithoutNewline_def)

end
